theory Spec2Isabelle
  imports Main
begin

section \<open>Values, errors and the cancellation registry\<close>

text \<open>
  The values that matter to \<^verbatim>\<open>src/actions.js\<close> are the contents of
  \<^verbatim>\<open>context.rootActionId\<close> (either \<^verbatim>\<open>undefined\<close> or a string),
  the arguments handed to \<^verbatim>\<open>commit\<close> and \<^verbatim>\<open>dispatch\<close>, and what an
  action returns.
\<close>

datatype jsval = Undefined | Str string

text \<open>JavaScript truthiness, as used by \<^verbatim>\<open>!context.rootActionId\<close> and \<^verbatim>\<open>||\<close>.\<close>

fun truthy :: "jsval \<Rightarrow> bool" where
  "truthy Undefined = False"
| "truthy (Str s) = (s \<noteq> [])"

text \<open>
  A thrown error object: the class whose constructor built it together with its
  \<^verbatim>\<open>name\<close> and \<^verbatim>\<open>message\<close> properties. The class and the name are separate
  data, as in JavaScript, where \<^verbatim>\<open>name\<close> is an ordinary property.
\<close>

datatype err_class = ActionCancelledErrorClass | OtherErrorClass

record js_error =
  cls :: err_class
  name :: string
  message :: jsval

text \<open>\<^verbatim>\<open>class ActionCancelledError extends Error\<close>, lines 15-21.\<close>

definition ActionCancelledError :: "jsval \<Rightarrow> js_error" where
  "ActionCancelledError msg =
     \<lparr>cls = ActionCancelledErrorClass, name = ''ActionCancelledError'', message = msg\<rparr>"

text \<open>
  A call either throws (\<open>Inl\<close>) or returns (\<open>Inr\<close>); the same type serves for a
  promise that is rejected or fulfilled.
\<close>

type_synonym result = "js_error + jsval"

text \<open>
  \<^verbatim>\<open>uniqueId\<close>, lines 7-9. The second argument is the string
  \<^verbatim>\<open>Math.random().toString(36)\<close> of this call, supplied by the environment;
  \<^verbatim>\<open>substr(2, 16)\<close> keeps at most 16 characters from index 2 on.
\<close>

definition uniqueId :: "string \<Rightarrow> string \<Rightarrow> string" where
  "uniqueId prefix rnd = (if prefix \<noteq> [] then prefix else []) @ take 16 (drop 2 rnd)"

text \<open>
  \<^verbatim>\<open>actionCancellerFactory\<close>, lines 23-36. The private
  \<^verbatim>\<open>cancelledActions\<close> set is passed explicitly. \<^verbatim>\<open>cancelAction\<close> and
  \<^verbatim>\<open>cleanAction\<close> return nothing, so they are modelled by the set they leave behind;
  \<^verbatim>\<open>isActionCancelled\<close> returns its answer together with the set it leaves
  behind.
\<close>

type_synonym registry = "jsval set"

definition canceller_cancelAction :: "jsval \<Rightarrow> registry \<Rightarrow> registry" where
  "canceller_cancelAction actionId cancelledActions = insert actionId cancelledActions"

definition isActionCancelled :: "jsval \<Rightarrow> registry \<Rightarrow> bool \<times> registry" where
  "isActionCancelled actionId cancelledActions = (actionId \<in> cancelledActions, cancelledActions)"

definition cleanAction :: "jsval \<Rightarrow> registry \<Rightarrow> registry" where
  "cleanAction actionId cancelledActions = cancelledActions - {actionId}"

section \<open>The world, contexts and the intercepting entry points\<close>

text \<open>
  The module-level \<^verbatim>\<open>actionCanceller\<close> (line 37) is process-wide state; the host
  store is whatever the original \<^verbatim>\<open>commit\<close> and \<^verbatim>\<open>dispatch\<close> act on.
\<close>

record 'h world =
  cancelledActions :: registry
  host :: 'h

type_synonym 'h entry_point = "jsval list \<Rightarrow> 'h world \<Rightarrow> result \<times> 'h world"

record 'h action_context =
  rootActionId :: jsval
  commit :: "'h entry_point"
  dispatch :: "'h entry_point"

text \<open>The exported \<^verbatim>\<open>cancelAction\<close>, lines 93-95.\<close>

definition cancelAction :: "jsval \<Rightarrow> 'h world \<Rightarrow> 'h world" where
  "cancelAction actionId w =
     w\<lparr>cancelledActions := canceller_cancelAction actionId (cancelledActions w)\<rparr>"

text \<open>
  \<^verbatim>\<open>wrappedCommit\<close> (lines 46-51) and \<^verbatim>\<open>wrappedDispatch\<close> (lines 53-58),
  closed over \<^verbatim>\<open>rootActionId\<close> and the original entry point.
\<close>

definition wrappedCommit :: "jsval \<Rightarrow> 'h entry_point \<Rightarrow> 'h entry_point" where
  "wrappedCommit rid commit0 args w =
     (case isActionCancelled rid (cancelledActions w) of
        (cancelled, reg) \<Rightarrow>
          if cancelled then (Inl (ActionCancelledError Undefined), w\<lparr>cancelledActions := reg\<rparr>)
          else commit0 args (w\<lparr>cancelledActions := reg\<rparr>))"

definition wrappedDispatch :: "jsval \<Rightarrow> 'h entry_point \<Rightarrow> 'h entry_point" where
  "wrappedDispatch rid dispatch0 args w =
     (case isActionCancelled rid (cancelledActions w) of
        (cancelled, reg) \<Rightarrow>
          if cancelled then (Inl (ActionCancelledError Undefined), w\<lparr>cancelledActions := reg\<rparr>)
          else dispatch0 args (w\<lparr>cancelledActions := reg\<rparr>))"

section \<open>The action wrapper\<close>

text \<open>
  \<^verbatim>\<open>actionWrapper\<close>, lines 39-69, is an async function: it runs synchronously up to
  the call of the action (lines 41-61) and continues after \<^verbatim>\<open>await ret\<close> once the
  action's result is settled (lines 63-67). The two halves are modelled separately so that
  other invocations can run in between.

  Lines 41-58: decide root-ness, attach an identifier if there is none (the random string
  is only consumed in that case), capture the original entry points and replace them in
  the context by the intercepting ones.
\<close>

definition actionWrapper_enter :: "string \<Rightarrow> 'h action_context \<Rightarrow> bool \<times> 'h action_context" where
  "actionWrapper_enter rnd context0 =
     (let isRootAction = \<not> truthy (rootActionId context0);
          context1 = context0\<lparr>rootActionId :=
            (if truthy (rootActionId context0) then rootActionId context0
             else Str (uniqueId ''action-'' rnd))\<rparr>;
          rid = rootActionId context1;
          commit0 = commit context1;
          dispatch0 = dispatch context1
      in (isRootAction,
          context1\<lparr>commit := wrappedCommit rid commit0, dispatch := wrappedDispatch rid dispatch0\<rparr>))"

text \<open>
  Lines 61-67, from the settled result of the action on. A synchronous throw of
  \<^verbatim>\<open>action.call\<close> and a rejection seen by \<^verbatim>\<open>await ret\<close> both leave the
  function at once, before line 64; only a fulfilled result reaches the cleanup.
\<close>

definition actionWrapper_exit :: "bool \<Rightarrow> jsval \<Rightarrow> result \<Rightarrow> 'h world \<Rightarrow> result \<times> 'h world" where
  "actionWrapper_exit isRootAction rid ret w =
     (case ret of
        Inl e \<Rightarrow> (Inl e, w)
      | Inr v \<Rightarrow>
          (Inr v,
           if isRootAction then w\<lparr>cancelledActions := cleanAction rid (cancelledActions w)\<rparr>
           else w))"

section \<open>The take-latest policy\<close>

text \<open>
  \<^verbatim>\<open>takeLatest\<close>, lines 107-120. \<^verbatim>\<open>previousCalls\<close> is the array owned by one
  call of \<^verbatim>\<open>takeLatest\<close>; \<^verbatim>\<open>pop\<close> takes the last element. The loop of lines
  110-112:
\<close>

function drain :: "jsval list \<Rightarrow> 'h world \<Rightarrow> jsval list \<times> 'h world" where
  "drain previousCalls w =
     (if length previousCalls > 0
      then drain (butlast previousCalls) (cancelAction (last previousCalls) w)
      else (previousCalls, w))"
  by pat_completeness auto
termination
  by (relation "measure (\<lambda>(previousCalls, w). length previousCalls)") auto

declare drain.simps [simp del]

text \<open>Lines 110-113: drain, then push \<^verbatim>\<open>context.rootActionId\<close>.\<close>

definition takeLatest_enter ::
  "jsval list \<Rightarrow> 'h action_context \<Rightarrow> 'h world \<Rightarrow> jsval list \<times> 'h world" where
  "takeLatest_enter previousCalls context0 w =
     (case drain previousCalls w of
        (previousCalls', w') \<Rightarrow> (previousCalls' @ [rootActionId context0], w'))"

text \<open>
  Lines 114-118, from the settled result of the action on: a fulfilled result is returned,
  a failure is rethrown unless its \<^verbatim>\<open>name\<close> is \<^verbatim>\<open>'ActionCancelledError'\<close>, in
  which case the function ends without a return value.
\<close>

definition takeLatest_exit :: "result \<Rightarrow> result" where
  "takeLatest_exit ret =
     (case ret of
        Inr v \<Rightarrow> Inr v
      | Inl e \<Rightarrow> if name e \<noteq> ''ActionCancelledError'' then Inl e else Inr Undefined)"

section \<open>Action bodies\<close>

text \<open>
  A user action is known to the wrappers only through what it does with its context:
  it calls \<^verbatim>\<open>context.commit\<close> or \<^verbatim>\<open>context.dispatch\<close>, it awaits something
  outside the store (a timer, a request), it returns or it throws. \<open>Call\<close> lets an
  exception of the entry point leave the action; \<open>TryCall\<close> has a handler for it.
\<close>

datatype entry = CommitE | DispatchE

datatype body =
    Return jsval
  | Throw js_error
  | Await body
  | Call entry "jsval list" body
  | TryCall entry "jsval list" body body

text \<open>
  An invocation is waiting inside its body; or its body has ended with a result while the
  code of the wrappers after their \<^verbatim>\<open>await\<close> has not run yet (it runs in a later
  microtask, after whatever else is left of the current turn); or it has completed.
\<close>

datatype status = Suspended body | Ending result | Settled result

fun call :: "'h action_context \<Rightarrow> entry \<Rightarrow> 'h entry_point" where
  "call c CommitE = commit c"
| "call c DispatchE = dispatch c"

text \<open>Run a body against a context up to its next suspension or to its end.\<close>

fun exec :: "'h action_context \<Rightarrow> body \<Rightarrow> 'h world \<Rightarrow> status \<times> 'h world" where
  "exec c (Return v) w = (Ending (Inr v), w)"
| "exec c (Throw e) w = (Ending (Inl e), w)"
| "exec c (Await b) w = (Suspended b, w)"
| "exec c (Call en args b) w =
     (case call c en args w of
        (Inl e, w') \<Rightarrow> (Ending (Inl e), w')
      | (Inr v, w') \<Rightarrow> exec c b w')"
| "exec c (TryCall en args b handler) w =
     (case call c en args w of
        (Inl e, w') \<Rightarrow> exec c handler w'
      | (Inr v, w') \<Rightarrow> exec c b w')"

section \<open>Interleaved invocations\<close>

text \<open>
  The host store is outside this repository. It is modelled as the log of the calls that
  reach it, each marked with the number of the invocation whose context it was handed to
  (as the test's mutations push onto \<^verbatim>\<open>commits\<close>); it accepts every call.
\<close>

type_synonym host_log = "(nat \<times> entry \<times> jsval list) list"

definition host_call :: "nat \<Rightarrow> entry \<Rightarrow> host_log entry_point" where
  "host_call k en args w = (Inr Undefined, w\<lparr>host := host w @ [(k, en, args)]\<rparr>)"

text \<open>
  An invocation: the context object it mutated, whether it is the root, whether the action
  is \<^verbatim>\<open>takeLatest(f)\<close> passed through \<^verbatim>\<open>makeCancellable\<close> (as in the README and
  the tests) or a plain \<^verbatim>\<open>f\<close> passed through \<^verbatim>\<open>makeCancellable\<close>, and where it
  stands.
\<close>

record task =
  ctx :: "host_log action_context"
  isRootAction :: bool
  viaTakeLatest :: bool
  status :: status

record sys =
  wld :: "host_log world"
  previousCalls :: "jsval list"
  tasks :: "task list"

definition init :: sys where
  "init = \<lparr>wld = \<lparr>cancelledActions = {}, host = []\<rparr>, previousCalls = [], tasks = []\<rparr>"

text \<open>
  JavaScript runs each piece of code to completion. The events are therefore: the host
  invokes a wrapped action (with the \<^verbatim>\<open>rootActionId\<close> its context carries, the
  random string of this call and the body); the next piece of invocation \<open>i\<close> runs, which
  is the rest of its body after an awaited operation or, once the body has ended, the code
  of the wrappers after their \<^verbatim>\<open>await\<close>; or somebody outside the action bodies calls
  the exported \<^verbatim>\<open>cancelAction\<close>. An invocation whose context already carries an
  identifier is a nested one; its context is given the host's entry points, which under one
  identifier behaves as the parent's intercepting entry points wrapped once more do.
\<close>

datatype event = Invoke bool jsval string body | Resume nat | CancelEv jsval

text \<open>One piece of the body of a task.\<close>

definition advance :: "task \<Rightarrow> body \<Rightarrow> host_log world \<Rightarrow> task \<times> host_log world" where
  "advance t b w = (case exec (ctx t) b w of (st, w') \<Rightarrow> (t\<lparr>status := st\<rparr>, w'))"

text \<open>
  What the wrappers do after their \<^verbatim>\<open>await\<close>, once the body of a task has ended with
  \<open>r\<close>: lines 114-118 if \<^verbatim>\<open>takeLatest\<close> is present, then lines 63-67. The code of
  \<^verbatim>\<open>takeLatestActionWrapper\<close> after its \<^verbatim>\<open>await\<close> looks at the error only; it
  neither reads nor changes the registry or the store, so it is run at the moment at which
  the code of the action wrapper after \<^verbatim>\<open>await ret\<close> runs.
\<close>

definition settle :: "task \<Rightarrow> result \<Rightarrow> host_log world \<Rightarrow> result \<times> host_log world" where
  "settle t r w =
     actionWrapper_exit (isRootAction t) (rootActionId (ctx t))
       (if viaTakeLatest t then takeLatest_exit r else r) w"

definition finish :: "task \<Rightarrow> result \<Rightarrow> host_log world \<Rightarrow> task \<times> host_log world" where
  "finish t r w = (case settle t r w of (r', w') \<Rightarrow> (t\<lparr>status := Settled r'\<rparr>, w'))"

text \<open>
  The context object the host hands to invocation number \<open>k\<close>, and the invocation as it
  stands when the wrapper calls the action (line 61).
\<close>

definition incoming_context :: "nat \<Rightarrow> jsval \<Rightarrow> host_log action_context" where
  "incoming_context k rid_in =
     \<lparr>rootActionId = rid_in, commit = host_call k CommitE, dispatch = host_call k DispatchE\<rparr>"

definition new_task :: "bool \<Rightarrow> jsval \<Rightarrow> string \<Rightarrow> body \<Rightarrow> nat \<Rightarrow> task" where
  "new_task latest rid_in rnd b k =
     (case actionWrapper_enter rnd (incoming_context k rid_in) of
        (isRoot, context1) \<Rightarrow>
          \<lparr>ctx = context1, isRootAction = isRoot, viaTakeLatest = latest, status = Suspended b\<rparr>)"

fun step :: "event \<Rightarrow> sys \<Rightarrow> sys" where
  "step (Invoke latest rid_in rnd b) s =
     (let t0 = new_task latest rid_in rnd b (length (tasks s));
          (pc, w1) = (if latest then takeLatest_enter (previousCalls s) (ctx t0) (wld s)
                      else (previousCalls s, wld s));
          (t, w2) = advance t0 b w1
      in \<lparr>wld = w2, previousCalls = pc, tasks = tasks s @ [t]\<rparr>)"
| "step (Resume i) s =
     (if i < length (tasks s)
      then (case status (tasks s ! i) of
              Suspended b \<Rightarrow>
                (case advance (tasks s ! i) b (wld s) of
                   (t, w') \<Rightarrow> s\<lparr>wld := w', tasks := (tasks s)[i := t]\<rparr>)
            | Ending r \<Rightarrow>
                (case finish (tasks s ! i) r (wld s) of
                   (t, w') \<Rightarrow> s\<lparr>wld := w', tasks := (tasks s)[i := t]\<rparr>)
            | Settled r \<Rightarrow> s)
      else s)"
| "step (CancelEv actionId) s = s\<lparr>wld := cancelAction actionId (wld s)\<rparr>"

fun steps :: "event list \<Rightarrow> sys \<Rightarrow> sys" where
  "steps [] s = s"
| "steps (ev # evs) s = steps evs (step ev s)"

section \<open>Predicates used in the statements\<close>

text \<open>A call or promise that failed with an instance of \<^verbatim>\<open>ActionCancelledError\<close>.\<close>

definition raises_cancelled :: "result \<Rightarrow> bool" where
  "raises_cancelled r = (case r of Inl e \<Rightarrow> cls e = ActionCancelledErrorClass | Inr v \<Rightarrow> False)"

text \<open>
  The identifier an invocation runs under; whether its body has not ended yet; whether its
  body has ended and the code of the wrappers after their \<^verbatim>\<open>await\<close> is still to run.
\<close>

definition task_id :: "task \<Rightarrow> jsval" where
  "task_id t = rootActionId (ctx t)"

fun in_flight :: "task \<Rightarrow> bool" where
  "in_flight t = (case status t of Suspended b \<Rightarrow> True | _ \<Rightarrow> False)"

fun ending :: "task \<Rightarrow> bool" where
  "ending t = (case status t of Ending r \<Rightarrow> True | _ \<Rightarrow> False)"

text \<open>
  The context of invocation \<open>k\<close> holds the intercepting entry points over the host's
  entry points for \<open>k\<close>.
\<close>

definition wrapped_for :: "nat \<Rightarrow> task \<Rightarrow> bool" where
  "wrapped_for k t =
     (commit (ctx t) = wrappedCommit (rootActionId (ctx t)) (host_call k CommitE)
      \<and> dispatch (ctx t) = wrappedDispatch (rootActionId (ctx t)) (host_call k DispatchE))"

definition contexts_ok :: "sys \<Rightarrow> bool" where
  "contexts_ok s = (\<forall>k < length (tasks s). wrapped_for k (tasks s ! k))"







text \<open>
  Every take-latest invocation that has completed with a failure carries an error whose
  name is not \<^verbatim>\<open>'ActionCancelledError'\<close>.
\<close>

definition absorbed_inv :: "sys \<Rightarrow> bool" where
  "absorbed_inv s =
     (\<forall>k < length (tasks s). \<forall>e. viaTakeLatest (tasks s ! k)
        \<and> status (tasks s ! k) = Settled (Inl e) \<longrightarrow> name e \<noteq> ''ActionCancelledError'')"

text \<open>The world in which the body of a new invocation starts.\<close>

definition entered :: "bool \<Rightarrow> sys \<Rightarrow> host_log world" where
  "entered l s =
     (if l then (wld s)\<lparr>cancelledActions := cancelledActions (wld s) \<union> set (previousCalls s)\<rparr>
      else wld s)"

section \<open>Scenarios of the test suite\<close>

text \<open>
  \<^verbatim>\<open>action1\<close> of \<^verbatim>\<open>tests/unit/actions.spec.js\<close> (lines 47-51): wait, commit
  \<^verbatim>\<open>setProp1\<close> with the concatenated properties, dispatch \<^verbatim>\<open>action2\<close>.
\<close>

definition action1 :: "string \<Rightarrow> string \<Rightarrow> body" where
  "action1 prop1 prop2 =
     Await (Call CommitE [Str ''setProp1'', Str (prop1 @ prop2)]
       (Call DispatchE [Str ''action2'', Str prop2] (Return Undefined)))"

text \<open>One take-latest invocation waiting for its timer.\<close>

definition one_pending :: sys where
  "one_pending = steps [Invoke True Undefined ''0.k2'' (action1 ''hello'' ''world'')] init"




section \<open>Facts about the definitions\<close>

lemma wrappedCommit_simp:
  "wrappedCommit rid c args w =
     (if rid \<in> cancelledActions w then (Inl (ActionCancelledError Undefined), w) else c args w)"
  by (simp add: wrappedCommit_def isActionCancelled_def)

lemma wrappedDispatch_simp:
  "wrappedDispatch rid d args w =
     (if rid \<in> cancelledActions w then (Inl (ActionCancelledError Undefined), w) else d args w)"
  by (simp add: wrappedDispatch_def isActionCancelled_def)

lemma rewrap_same_id:
  "wrappedCommit rid (wrappedCommit rid c) = wrappedCommit rid c"
  "wrappedDispatch rid (wrappedDispatch rid d) = wrappedDispatch rid d"
  by (simp_all add: fun_eq_iff wrappedCommit_simp wrappedDispatch_simp)

lemma drain_eq: "drain pc w = ([], w\<lparr>cancelledActions := cancelledActions w \<union> set pc\<rparr>)"
proof (induction pc arbitrary: w rule: rev_induct)
  case Nil
  show ?case by (subst drain.simps) simp
next
  case (snoc x xs)
  have "drain (xs @ [x]) w = drain xs (cancelAction x w)"
    by (subst drain.simps) simp
  also have "\<dots> = ([], (cancelAction x w)\<lparr>cancelledActions :=
      cancelledActions (cancelAction x w) \<union> set xs\<rparr>)"
    by (rule snoc.IH)
  finally show ?case
    by (simp add: cancelAction_def canceller_cancelAction_def Un_commute insert_commute)
qed

lemma call_wrapped:
  "wrapped_for k t \<Longrightarrow>
   call (ctx t) en args w =
     (if rootActionId (ctx t) \<in> cancelledActions w then (Inl (ActionCancelledError Undefined), w)
      else (Inr Undefined, w\<lparr>host := host w @ [(k, en, args)]\<rparr>))"
  by (cases en) (simp_all add: wrapped_for_def wrappedCommit_simp wrappedDispatch_simp host_call_def)




lemma exit_fst: "fst (actionWrapper_exit root rid ret w) = ret"
  by (cases ret) (simp_all add: actionWrapper_exit_def)

lemma exit_host: "host (snd (actionWrapper_exit root rid ret w)) = host w"
  by (cases ret) (simp_all add: actionWrapper_exit_def)


lemma settle_host: "host (snd (settle t r w)) = host w"
  by (simp add: settle_def exit_host)

lemma settle_result: "fst (settle t r w) = (if viaTakeLatest t then takeLatest_exit r else r)"
  by (simp add: settle_def exit_fst)


lemma advance_static:
  "ctx (fst (advance t b w)) = ctx t \<and> isRootAction (fst (advance t b w)) = isRootAction t
   \<and> viaTakeLatest (fst (advance t b w)) = viaTakeLatest t"
  by (simp add: advance_def split: prod.splits)

lemma advance_status: "status (fst (advance t b w)) = fst (exec (ctx t) b w)"
  by (simp add: advance_def split: prod.splits)

lemma advance_world: "snd (advance t b w) = snd (exec (ctx t) b w)"
  by (simp add: advance_def split: prod.splits)

lemma exec_not_settled: "fst (exec c b w) \<noteq> Settled r"
  by (induction b arbitrary: w) (simp_all split: prod.splits sum.splits)




lemma finish_unfold:
  "finish t r w = (t\<lparr>status := Settled (fst (settle t r w))\<rparr>, snd (settle t r w))"
  by (simp add: finish_def split: prod.splits)

lemma finish_static:
  "ctx (fst (finish t r w)) = ctx t \<and> isRootAction (fst (finish t r w)) = isRootAction t
   \<and> viaTakeLatest (fst (finish t r w)) = viaTakeLatest t"
  by (simp add: finish_unfold)

lemma finish_status:
  "status (fst (finish t r w)) = Settled (if viaTakeLatest t then takeLatest_exit r else r)"
  by (simp add: finish_unfold settle_result)

lemma finish_host: "host (snd (finish t r w)) = host w"
  by (simp add: finish_unfold settle_host)


lemma wrapped_for_ctx: "ctx t' = ctx t \<Longrightarrow> wrapped_for k t' = wrapped_for k t"
  by (simp add: wrapped_for_def)

lemma new_task_fields:
  "isRootAction (new_task l rid_in rnd b k) = (\<not> truthy rid_in)"
  "viaTakeLatest (new_task l rid_in rnd b k) = l"
  "status (new_task l rid_in rnd b k) = Suspended b"
  "rootActionId (ctx (new_task l rid_in rnd b k)) =
     (if truthy rid_in then rid_in else Str (uniqueId ''action-'' rnd))"
  by (simp_all add: new_task_def incoming_context_def actionWrapper_enter_def Let_def)

lemma new_task_wrapped: "wrapped_for k (new_task l rid_in rnd b k)"
  by (simp add: wrapped_for_def new_task_def incoming_context_def actionWrapper_enter_def Let_def)

lemma takeLatest_enter_eq:
  "takeLatest_enter pc c w
     = ([rootActionId c], w\<lparr>cancelledActions := cancelledActions w \<union> set pc\<rparr>)"
  by (simp add: takeLatest_enter_def drain_eq)

lemma step_Invoke_eq:
  "step (Invoke l rid_in rnd b) s =
     \<lparr>wld = snd (advance (new_task l rid_in rnd b (length (tasks s))) b (entered l s)),
      previousCalls = (if l then [rootActionId (ctx (new_task l rid_in rnd b (length (tasks s))))]
                       else previousCalls s),
      tasks = tasks s @ [fst (advance (new_task l rid_in rnd b (length (tasks s))) b (entered l s))]\<rparr>"
  by (simp add: Let_def takeLatest_enter_eq entered_def split: prod.splits)

lemma step_Resume_eq:
  "i < length (tasks s) \<Longrightarrow> status (tasks s ! i) = Suspended b \<Longrightarrow>
   step (Resume i) s =
     s\<lparr>wld := snd (advance (tasks s ! i) b (wld s)),
       tasks := (tasks s)[i := fst (advance (tasks s ! i) b (wld s))]\<rparr>"
  by (simp split: prod.splits)

lemma step_Resume_end:
  "i < length (tasks s) \<Longrightarrow> status (tasks s ! i) = Ending r \<Longrightarrow>
   step (Resume i) s =
     s\<lparr>wld := snd (finish (tasks s ! i) r (wld s)),
       tasks := (tasks s)[i := fst (finish (tasks s ! i) r (wld s))]\<rparr>"
  by (simp split: prod.splits)

lemma step_Resume_idle:
  "\<not> (i < length (tasks s) \<and> (in_flight (tasks s ! i) \<or> ending (tasks s ! i))) \<Longrightarrow>
   step (Resume i) s = s"
  by (auto split: status.splits)

lemma step_Resume_cases:
  obtains (idle) "step (Resume i) s = s"
  | (body) b where "i < length (tasks s)" "status (tasks s ! i) = Suspended b"
      "step (Resume i) s =
         s\<lparr>wld := snd (advance (tasks s ! i) b (wld s)),
           tasks := (tasks s)[i := fst (advance (tasks s ! i) b (wld s))]\<rparr>"
  | (after) r where "i < length (tasks s)" "status (tasks s ! i) = Ending r"
      "step (Resume i) s =
         s\<lparr>wld := snd (finish (tasks s ! i) r (wld s)),
           tasks := (tasks s)[i := fst (finish (tasks s ! i) r (wld s))]\<rparr>"
proof (cases "i < length (tasks s)")
  case False
  then show ?thesis using idle by simp
next
  case True
  show ?thesis
  proof (cases "status (tasks s ! i)")
    case (Suspended b)
    then show ?thesis using body [of b] True step_Resume_eq [of i s b] by blast
  next
    case (Ending r)
    then show ?thesis using after [of r] True step_Resume_end [of i s r] by blast
  next
    case (Settled r)
    then show ?thesis using idle True by simp
  qed
qed

lemma step_Cancel_eq:
  "step (CancelEv a) s = s\<lparr>wld := (wld s)\<lparr>cancelledActions := insert a (cancelledActions (wld s))\<rparr>\<rparr>"
  by (simp add: cancelAction_def canceller_cancelAction_def)

lemma contexts_ok_step: "contexts_ok s \<Longrightarrow> contexts_ok (step ev s)"
proof (cases ev)
  case (Invoke l rid_in rnd b)
  assume ok: "contexts_ok s"
  show ?thesis
    unfolding Invoke step_Invoke_eq contexts_ok_def
    using ok new_task_wrapped [of "length (tasks s)" l rid_in rnd b]
    by (auto simp: contexts_ok_def nth_append less_Suc_eq
        wrapped_for_ctx [OF conjunct1 [OF advance_static]])
next
  case (Resume i)
  assume ok: "contexts_ok s"
  show ?thesis
  proof (cases rule: step_Resume_cases [of i s])
    case idle
    then show ?thesis using ok Resume by simp
  next
    case (body b)
    show ?thesis
      unfolding Resume body(3) contexts_ok_def
      using ok body(1)
      by (auto simp: contexts_ok_def nth_list_update
          wrapped_for_ctx [OF conjunct1 [OF advance_static]])
  next
    case (after r)
    show ?thesis
      unfolding Resume after(3) contexts_ok_def
      using ok after(1)
      by (auto simp: contexts_ok_def nth_list_update
          wrapped_for_ctx [OF conjunct1 [OF finish_static]])
  qed
next
  case (CancelEv a)
  assume "contexts_ok s"
  then show ?thesis unfolding CancelEv step_Cancel_eq by (simp add: contexts_ok_def)
qed

lemma contexts_ok_steps: "contexts_ok s \<Longrightarrow> contexts_ok (steps evs s)"
  by (induction evs arbitrary: s) (simp_all add: contexts_ok_step)

lemma contexts_ok_init: "contexts_ok init"
  by (simp add: contexts_ok_def init_def)

lemma step_tasks_stable:
  assumes "k < length (tasks s)"
  shows "k < length (tasks (step ev s)) \<and> ctx (tasks (step ev s) ! k) = ctx (tasks s ! k)
     \<and> isRootAction (tasks (step ev s) ! k) = isRootAction (tasks s ! k)
     \<and> viaTakeLatest (tasks (step ev s) ! k) = viaTakeLatest (tasks s ! k)"
proof (cases ev)
  case (Invoke l rid_in rnd b)
  show ?thesis unfolding Invoke step_Invoke_eq using assms by (simp add: nth_append)
next
  case (Resume i)
  show ?thesis
  proof (cases rule: step_Resume_cases [of i s])
    case idle
    then show ?thesis using assms Resume by simp
  next
    case (body b)
    show ?thesis unfolding Resume body(3)
      using assms body(1) by (simp add: nth_list_update advance_static)
  next
    case (after r)
    show ?thesis unfolding Resume after(3)
      using assms after(1) by (simp add: nth_list_update finish_static)
  qed
next
  case (CancelEv a)
  show ?thesis unfolding CancelEv step_Cancel_eq using assms by simp
qed

lemma steps_tasks_stable:
  "k < length (tasks s) \<Longrightarrow>
   k < length (tasks (steps evs s)) \<and> ctx (tasks (steps evs s) ! k) = ctx (tasks s ! k)
     \<and> isRootAction (tasks (steps evs s) ! k) = isRootAction (tasks s ! k)
     \<and> viaTakeLatest (tasks (steps evs s) ! k) = viaTakeLatest (tasks s ! k)"
proof (induction evs arbitrary: s)
  case Nil
  then show ?case by simp
next
  case (Cons ev evs)
  from step_tasks_stable [OF Cons.prems, of ev] Cons.IH [of "step ev s"]
  show ?case by simp
qed














lemma takeLatest_exit_name:
  "takeLatest_exit r = Inl e \<Longrightarrow> name e \<noteq> ''ActionCancelledError''"
  by (auto simp: takeLatest_exit_def split: sum.splits if_splits)

lemma absorbed_inv_step:
  assumes inv: "absorbed_inv s"
  shows "absorbed_inv (step ev s)"
proof (cases ev)
  case (Invoke l rid_in rnd b)
  show ?thesis unfolding Invoke step_Invoke_eq absorbed_inv_def
    using inv
    by (auto simp: absorbed_inv_def nth_append less_Suc_eq advance_status exec_not_settled)
next
  case (Resume i)
  show ?thesis
  proof (cases rule: step_Resume_cases [of i s])
    case idle
    then show ?thesis using inv Resume by simp
  next
    case (body b)
    show ?thesis unfolding Resume body(3) absorbed_inv_def
      using inv body(1)
      by (auto simp: absorbed_inv_def nth_list_update advance_status exec_not_settled)
  next
    case (after r)
    show ?thesis unfolding Resume after(3) absorbed_inv_def
      using inv after(1)
      by (auto simp: absorbed_inv_def nth_list_update finish_status finish_static
          dest: takeLatest_exit_name split: if_splits)
  qed
next
  case (CancelEv a)
  show ?thesis unfolding CancelEv step_Cancel_eq using inv by (simp add: absorbed_inv_def)
qed

lemma absorbed_inv_steps: "absorbed_inv s \<Longrightarrow> absorbed_inv (steps evs s)"
  by (induction evs arbitrary: s) (simp_all add: absorbed_inv_step del: step.simps)

lemma absorbed_inv_init: "absorbed_inv init"
  by (simp add: absorbed_inv_def init_def)

lemma step_after_end:
  assumes "i < length (tasks s)"
    and "status (tasks s ! i) = Ending r \<or> status (tasks s ! i) = Settled r'"
    and "r' = (if viaTakeLatest (tasks s ! i) then takeLatest_exit r else r)"
  shows "status (tasks (step ev s) ! i) = Ending r \<or> status (tasks (step ev s) ! i) = Settled r'"
proof (cases ev)
  case (Invoke l rid_in rnd b)
  show ?thesis unfolding Invoke step_Invoke_eq using assms by (simp add: nth_append)
next
  case (Resume j)
  show ?thesis
  proof (cases rule: step_Resume_cases [of j s])
    case idle
    then show ?thesis using assms Resume by simp
  next
    case (body b)
    then have "j \<noteq> i" using assms(2) by auto
    then show ?thesis unfolding Resume body(3) using assms by simp
  next
    case (after r2)
    show ?thesis
    proof (cases "j = i")
      case True
      then have "r2 = r" using after(2) assms(2) by auto
      then show ?thesis unfolding Resume after(3) using assms True
        by (simp add: finish_status)
    next
      case False
      then show ?thesis unfolding Resume after(3) using assms by simp
    qed
  qed
next
  case (CancelEv a)
  show ?thesis unfolding CancelEv step_Cancel_eq using assms by simp
qed

lemma steps_after_end:
  "i < length (tasks s) \<Longrightarrow>
   status (tasks s ! i) = Ending r \<or> status (tasks s ! i) = Settled r' \<Longrightarrow>
   r' = (if viaTakeLatest (tasks s ! i) then takeLatest_exit r else r) \<Longrightarrow>
   status (tasks (steps evs s) ! i) = Ending r \<or> status (tasks (steps evs s) ! i) = Settled r'"
proof (induction evs arbitrary: s)
  case Nil
  then show ?case by simp
next
  case (Cons ev evs)
  have "i < length (tasks (step ev s))"
    and "viaTakeLatest (tasks (step ev s) ! i) = viaTakeLatest (tasks s ! i)"
    using step_tasks_stable [OF Cons.prems(1), of ev] by simp_all
  moreover have "status (tasks (step ev s) ! i) = Ending r
      \<or> status (tasks (step ev s) ! i) = Settled r'"
    using Cons.prems by (rule step_after_end)
  ultimately show ?case using Cons.IH [of "step ev s"] Cons.prems(3) by simp
qed

lemmas run_defs = init_def new_task_def incoming_context_def actionWrapper_enter_def Let_def
  advance_def finish_def uniqueId_def cancelAction_def canceller_cancelAction_def
  wrappedCommit_simp wrappedDispatch_simp settle_def actionWrapper_exit_def takeLatest_exit_def
  host_call_def takeLatest_enter_eq cleanAction_def ActionCancelledError_def action1_def
  task_id_def

section \<open>The claims\<close>

text \<open>
  C1, on the code. The second scenario of the first test: a root invocation of
  \<^verbatim>\<open>action1\<close> is cancelled while it waits; its commit then throws, the body ends with
  \<^verbatim>\<open>ActionCancelledError\<close>, and when the code after \<^verbatim>\<open>await ret\<close> has had its
  turn the invocation has completed with that error and its identifier is still in the
  registry: the cleanup of line 65 is only reached when \<^verbatim>\<open>await ret\<close> does not throw.
\<close>

theorem cancelled_root_stays_registered:
  "isRootAction (tasks (steps [Invoke False Undefined ''0.k2'' (action1 ''hello'' ''world''),
        CancelEv (Str ''action-k2''), Resume 0, Resume 0] init) ! 0)
   \<and> task_id (tasks (steps [Invoke False Undefined ''0.k2'' (action1 ''hello'' ''world''),
        CancelEv (Str ''action-k2''), Resume 0, Resume 0] init) ! 0) = Str ''action-k2''
   \<and> status (tasks (steps [Invoke False Undefined ''0.k2'' (action1 ''hello'' ''world''),
        CancelEv (Str ''action-k2''), Resume 0, Resume 0] init) ! 0)
        = Settled (Inl (ActionCancelledError Undefined))
   \<and> Str ''action-k2'' \<in> cancelledActions (wld (steps
        [Invoke False Undefined ''0.k2'' (action1 ''hello'' ''world''),
         CancelEv (Str ''action-k2''), Resume 0, Resume 0] init))"
  by (simp add: run_defs)

text \<open>
  C2, as stated, fails: an error that is not an instance of \<^verbatim>\<open>ActionCancelledError\<close>
  but carries the name \<^verbatim>\<open>'ActionCancelledError'\<close> is swallowed as well, since line 117
  compares names.
\<close>

theorem takeLatest_swallows_same_name_counterexample:
  "cls \<lparr>cls = OtherErrorClass, name = ''ActionCancelledError'', message = Str ''boom''\<rparr>
     \<noteq> ActionCancelledErrorClass
   \<and> status (tasks (steps [Invoke True Undefined ''0.k2''
        (Throw \<lparr>cls = OtherErrorClass, name = ''ActionCancelledError'', message = Str ''boom''\<rparr>),
        Resume 0] init) ! 0) = Settled (Inr Undefined)"
  by (simp add: run_defs)

text \<open>
  C2, amended. When the action of a take-latest invocation fails with error \<open>e\<close>, then,
  whatever the world looks like when the code after the \<^verbatim>\<open>await\<close> runs: if \<open>e\<close> is an
  \<^verbatim>\<open>ActionCancelledError\<close>, or any error whose name is \<^verbatim>\<open>'ActionCancelledError'\<close>,
  the invocation completes fulfilled with no value; if the name of \<open>e\<close> is anything else,
  the invocation completes rejected with \<open>e\<close> itself.
\<close>

theorem takeLatest_absorbs_by_name:
  assumes "viaTakeLatest t" and "fst (exec (ctx t) b w) = Ending (Inl e)"
  shows "status (fst (advance t b w)) = Ending (Inl e)
    \<and> (e = ActionCancelledError m \<longrightarrow>
         status (fst (finish (fst (advance t b w)) (Inl e) w2)) = Settled (Inr Undefined))
    \<and> (name e = ''ActionCancelledError'' \<longrightarrow>
         status (fst (finish (fst (advance t b w)) (Inl e) w2)) = Settled (Inr Undefined))
    \<and> (name e \<noteq> ''ActionCancelledError'' \<longrightarrow>
         status (fst (finish (fst (advance t b w)) (Inl e) w2)) = Settled (Inl e))"
  using assms
  by (simp add: advance_status finish_status advance_static takeLatest_exit_def
      ActionCancelledError_def)

theorem takeLatest_absorbs_by_name_witness:
  "viaTakeLatest (new_task True Undefined ''0.k2'' (action1 ''hello'' ''world'') 0)
   \<and> fst (exec (ctx (new_task True Undefined ''0.k2'' (action1 ''hello'' ''world'') 0))
        (Call CommitE [Str ''setProp1''] (Return Undefined))
        \<lparr>cancelledActions = {Str ''action-k2''}, host = []\<rparr>)
       = Ending (Inl (ActionCancelledError Undefined))
   \<and> status (fst (finish (fst (advance
        (new_task True Undefined ''0.k2'' (action1 ''hello'' ''world'') 0)
        (Call CommitE [Str ''setProp1''] (Return Undefined))
        \<lparr>cancelledActions = {Str ''action-k2''}, host = []\<rparr>))
        (Inl (ActionCancelledError Undefined))
        \<lparr>cancelledActions = {Str ''action-k2''}, host = []\<rparr>)) = Settled (Inr Undefined)
   \<and> fst (exec (ctx (new_task True Undefined ''0.k2'' (action1 ''hello'' ''world'') 0))
        (Throw \<lparr>cls = OtherErrorClass, name = ''TypeError'', message = Str ''boom''\<rparr>)
        \<lparr>cancelledActions = {}, host = []\<rparr>)
       = Ending (Inl \<lparr>cls = OtherErrorClass, name = ''TypeError'', message = Str ''boom''\<rparr>)
   \<and> name \<lparr>cls = OtherErrorClass, name = ''TypeError'', message = Str ''boom''\<rparr>
       \<noteq> ''ActionCancelledError''
   \<and> status (fst (finish (fst (advance
        (new_task True Undefined ''0.k2'' (action1 ''hello'' ''world'') 0)
        (Throw \<lparr>cls = OtherErrorClass, name = ''TypeError'', message = Str ''boom''\<rparr>)
        \<lparr>cancelledActions = {}, host = []\<rparr>))
        (Inl \<lparr>cls = OtherErrorClass, name = ''TypeError'', message = Str ''boom''\<rparr>)
        \<lparr>cancelledActions = {}, host = []\<rparr>))
       = Settled (Inl \<lparr>cls = OtherErrorClass, name = ''TypeError'', message = Str ''boom''\<rparr>)"
proof -
  have v: "viaTakeLatest (new_task True Undefined ''0.k2'' (action1 ''hello'' ''world'') 0)"
    by (simp add: new_task_fields)
  have e1: "fst (exec (ctx (new_task True Undefined ''0.k2'' (action1 ''hello'' ''world'') 0))
        (Call CommitE [Str ''setProp1''] (Return Undefined))
        \<lparr>cancelledActions = {Str ''action-k2''}, host = []\<rparr>)
       = Ending (Inl (ActionCancelledError Undefined))"
    by (simp add: run_defs)
  have e2: "fst (exec (ctx (new_task True Undefined ''0.k2'' (action1 ''hello'' ''world'') 0))
        (Throw \<lparr>cls = OtherErrorClass, name = ''TypeError'', message = Str ''boom''\<rparr>)
        \<lparr>cancelledActions = {}, host = []\<rparr>)
       = Ending (Inl \<lparr>cls = OtherErrorClass, name = ''TypeError'', message = Str ''boom''\<rparr>)"
    by simp
  show ?thesis
    using v e1 e2
      takeLatest_absorbs_by_name [OF v e1, of Undefined
        "\<lparr>cancelledActions = {Str ''action-k2''}, host = []\<rparr>"]
      takeLatest_absorbs_by_name [OF v e2, of Undefined "\<lparr>cancelledActions = {}, host = []\<rparr>"]
    by simp
qed







text \<open>
  C5. The synchronous start of \<^verbatim>\<open>takeLatestActionWrapper\<close> (lines 110-113), which
  runs before the underlying action is called, leaves \<^verbatim>\<open>previousCalls\<close> holding
  exactly the identifier of the new invocation's context, has added every identifier that
  was recorded before to the set of cancelled identifiers, and has changed nothing else.
\<close>

theorem takeLatest_enter_sole_pending:
  "fst (takeLatest_enter pc c w) = [rootActionId c]
   \<and> cancelledActions (snd (takeLatest_enter pc c w)) = cancelledActions w \<union> set pc
   \<and> host (snd (takeLatest_enter pc c w)) = host w"
  by (simp add: takeLatest_enter_def drain_eq)

text \<open>
  C6. An intercepting entry point called while its identifier is in the registry throws a
  new \<^verbatim>\<open>ActionCancelledError\<close> and touches nothing; called while the identifier is
  not in the registry it is the original entry point on the same arguments, with the same
  return value and effect. So, whenever the original entry point does not itself throw an
  \<^verbatim>\<open>ActionCancelledError\<close>, the intercepting one throws it exactly when the identifier
  is in the registry at the moment of the call.
\<close>

theorem wrapped_entry_points:
  "(rid \<in> cancelledActions w \<longrightarrow>
      wrappedCommit rid c args w = (Inl (ActionCancelledError Undefined), w)
      \<and> wrappedDispatch rid d args w = (Inl (ActionCancelledError Undefined), w))
   \<and> (rid \<notin> cancelledActions w \<longrightarrow>
      wrappedCommit rid c args w = c args w \<and> wrappedDispatch rid d args w = d args w)
   \<and> (\<not> raises_cancelled (fst (c args w)) \<longrightarrow>
      (raises_cancelled (fst (wrappedCommit rid c args w)) \<longleftrightarrow> rid \<in> cancelledActions w))
   \<and> (\<not> raises_cancelled (fst (d args w)) \<longrightarrow>
      (raises_cancelled (fst (wrappedDispatch rid d args w)) \<longleftrightarrow> rid \<in> cancelledActions w))"
  by (simp add: wrappedCommit_simp wrappedDispatch_simp raises_cancelled_def
      ActionCancelledError_def)

theorem wrapped_entry_points_witness:
  "Str ''action-a'' \<in> cancelledActions \<lparr>cancelledActions = {Str ''action-a''}, host = []\<rparr>
   \<and> Str ''action-b'' \<notin> cancelledActions \<lparr>cancelledActions = {Str ''action-a''}, host = []\<rparr>
   \<and> \<not> raises_cancelled (fst (host_call 0 CommitE [Str ''setProp1'']
          \<lparr>cancelledActions = {Str ''action-a''}, host = []\<rparr>))
   \<and> \<not> raises_cancelled (fst (host_call 0 DispatchE [Str ''action2'']
          \<lparr>cancelledActions = {Str ''action-a''}, host = []\<rparr>))
   \<and> wrappedCommit (Str ''action-a'') (host_call 0 CommitE) [Str ''setProp1'']
         \<lparr>cancelledActions = {Str ''action-a''}, host = []\<rparr>
       = (Inl (ActionCancelledError Undefined), \<lparr>cancelledActions = {Str ''action-a''}, host = []\<rparr>)
   \<and> wrappedCommit (Str ''action-b'') (host_call 0 CommitE) [Str ''setProp1'']
         \<lparr>cancelledActions = {Str ''action-a''}, host = []\<rparr>
       = (Inr Undefined,
          \<lparr>cancelledActions = {Str ''action-a''}, host = [(0, CommitE, [Str ''setProp1''])]\<rparr>)"
  using
    wrapped_entry_points [of "Str ''action-a''"
      "\<lparr>cancelledActions = {Str ''action-a''}, host = []\<rparr>"
      "host_call 0 CommitE" "[Str ''setProp1'']" "host_call 0 DispatchE"]
    wrapped_entry_points [of "Str ''action-b''"
      "\<lparr>cancelledActions = {Str ''action-a''}, host = []\<rparr>"
      "host_call 0 CommitE" "[Str ''setProp1'']" "host_call 0 DispatchE"]
  by (simp add: host_call_def raises_cancelled_def)

text \<open>
  C7. Called with a context that carries no identifier, the wrapper treats the invocation
  as root and attaches the identifier made by \<^verbatim>\<open>uniqueId('action-')\<close>; called with a
  context that carries an identifier (a non-empty string, as every identifier the wrapper
  attaches is), it treats the invocation as nested and keeps that identifier, whatever the
  random source would have given. A nested invocation never changes the registry when it
  ends; a root invocation that ends with a fulfilled result removes its identifier.
\<close>

theorem actionWrapper_rootness:
  "(rootActionId c = Undefined \<longrightarrow>
      fst (actionWrapper_enter rnd c)
      \<and> rootActionId (snd (actionWrapper_enter rnd c)) = Str (uniqueId ''action-'' rnd))
   \<and> (rootActionId c = Str s \<and> s \<noteq> [] \<longrightarrow>
      \<not> fst (actionWrapper_enter rnd c)
      \<and> rootActionId (snd (actionWrapper_enter rnd c)) = Str s)
   \<and> actionWrapper_exit False rid ret w = (ret, w)
   \<and> actionWrapper_exit True rid (Inr v) w
        = (Inr v, w\<lparr>cancelledActions := cancelledActions w - {rid}\<rparr>)"
  by (simp add: actionWrapper_enter_def Let_def actionWrapper_exit_def cleanAction_def
      split: sum.splits)

theorem actionWrapper_rootness_witness:
  "rootActionId \<lparr>rootActionId = Undefined, commit = host_call 0 CommitE,
      dispatch = host_call 0 DispatchE\<rparr> = Undefined
   \<and> fst (actionWrapper_enter ''0.k2'' \<lparr>rootActionId = Undefined, commit = host_call 0 CommitE,
      dispatch = host_call 0 DispatchE\<rparr>)
   \<and> rootActionId (snd (actionWrapper_enter ''0.k2'' \<lparr>rootActionId = Undefined,
      commit = host_call 0 CommitE, dispatch = host_call 0 DispatchE\<rparr>)) = Str ''action-k2''
   \<and> rootActionId \<lparr>rootActionId = Str ''action-k2'', commit = host_call 1 CommitE,
      dispatch = host_call 1 DispatchE\<rparr> = Str ''action-k2'' \<and> ''action-k2'' \<noteq> []
   \<and> \<not> fst (actionWrapper_enter ''0.zz'' \<lparr>rootActionId = Str ''action-k2'',
      commit = host_call 1 CommitE, dispatch = host_call 1 DispatchE\<rparr>)
   \<and> rootActionId (snd (actionWrapper_enter ''0.zz'' \<lparr>rootActionId = Str ''action-k2'',
      commit = host_call 1 CommitE, dispatch = host_call 1 DispatchE\<rparr>)) = Str ''action-k2''"
  using
    actionWrapper_rootness [of "\<lparr>rootActionId = Undefined, commit = host_call 0 CommitE,
      dispatch = host_call 0 DispatchE\<rparr>" "''0.k2''" "''action-k2''" Undefined "Inr Undefined"
      "\<lparr>cancelledActions = {}, host = ([] :: host_log)\<rparr>" Undefined]
    actionWrapper_rootness [of "\<lparr>rootActionId = Str ''action-k2'', commit = host_call 1 CommitE,
      dispatch = host_call 1 DispatchE\<rparr>" "''0.zz''" "''action-k2''" Undefined "Inr Undefined"
      "\<lparr>cancelledActions = {}, host = ([] :: host_log)\<rparr>" Undefined]
  by (simp add: uniqueId_def)

text \<open>
  C8, on the code. The identifier is made from \<^verbatim>\<open>Math.random()\<close> alone: two root
  invocations whose random strings agree receive the same identifier, although the comment
  of lines 71-72 and the name \<^verbatim>\<open>uniqueId\<close> promise a unique one.
\<close>

theorem sibling_roots_share_id:
  "isRootAction (tasks (steps [Invoke False Undefined ''0.k2'' (Await (Return Undefined)),
        Invoke False Undefined ''0.k2'' (Await (Return Undefined))] init) ! 0)
   \<and> isRootAction (tasks (steps [Invoke False Undefined ''0.k2'' (Await (Return Undefined)),
        Invoke False Undefined ''0.k2'' (Await (Return Undefined))] init) ! Suc 0)
   \<and> rootActionId (ctx (tasks (steps [Invoke False Undefined ''0.k2'' (Await (Return Undefined)),
        Invoke False Undefined ''0.k2'' (Await (Return Undefined))] init) ! 0)) = Str ''action-k2''
   \<and> rootActionId (ctx (tasks (steps [Invoke False Undefined ''0.k2'' (Await (Return Undefined)),
        Invoke False Undefined ''0.k2'' (Await (Return Undefined))] init) ! Suc 0)) = Str ''action-k2''"
  by (simp add: init_def new_task_def incoming_context_def actionWrapper_enter_def Let_def
      advance_def uniqueId_def)

text \<open>
  C9. Cancelling an identifier twice leaves the registry as cancelling it once does;
  cleaning an identifier that is absent changes nothing, and neither does cleaning twice;
  the query hands the registry back as it found it; and cancelling one identifier does not
  change the answer of the query for any other identifier.
\<close>

theorem registry_laws:
  "canceller_cancelAction i (canceller_cancelAction i r) = canceller_cancelAction i r
   \<and> (i \<notin> r \<longrightarrow> cleanAction i r = r)
   \<and> cleanAction i (cleanAction i r) = cleanAction i r
   \<and> snd (isActionCancelled j r) = r
   \<and> (j \<noteq> i \<longrightarrow>
        fst (isActionCancelled j (canceller_cancelAction i r)) = fst (isActionCancelled j r))"
  by (auto simp: canceller_cancelAction_def cleanAction_def isActionCancelled_def)

theorem registry_laws_witness:
  "Str ''a'' \<notin> {Str ''c''} \<and> Str ''b'' \<noteq> Str ''a''
   \<and> cleanAction (Str ''a'') {Str ''c''} = {Str ''c''}
   \<and> fst (isActionCancelled (Str ''b'') (canceller_cancelAction (Str ''a'') {Str ''c''}))
       = fst (isActionCancelled (Str ''b'') {Str ''c''})"
  using registry_laws [of "Str ''a''" "{Str ''c''}" "Str ''b''"] by simp

text \<open>
  C10. A take-latest invocation that is waiting is cancelled from outside through
  \<^verbatim>\<open>cancelAction\<close> on its own identifier and then resumed. If its body goes on with a
  call of \<^verbatim>\<open>commit\<close> or \<^verbatim>\<open>dispatch\<close>, nothing reaches the host store, and whenever
  the code after the \<^verbatim>\<open>await\<close> runs, whatever happens in between, the invocation
  completes fulfilled with no value and that code adds nothing to the host store either;
  and whatever its body does, the invocation never completes rejected with an error named
  \<^verbatim>\<open>'ActionCancelledError'\<close>.
\<close>

theorem external_cancel_absorbed:
  assumes "s = steps evs init" and "i < length (tasks s)" and "viaTakeLatest (tasks s ! i)"
    and "status (tasks s ! i) = Suspended b0"
    and "s1 = step (Resume i) (step (CancelEv (task_id (tasks s ! i))) s)"
    and "s' = step (Resume i) (steps evs' s1)"
  shows "(\<forall>en args b. b0 = Call en args b \<longrightarrow>
            status (tasks s' ! i) = Settled (Inr Undefined)
            \<and> host (wld s1) = host (wld s) \<and> host (wld s') = host (wld (steps evs' s1)))
    \<and> (\<forall>e. status (tasks s' ! i) = Settled (Inl e) \<longrightarrow> name e \<noteq> ''ActionCancelledError'')"
proof -
  define t where "t = tasks s ! i"
  define sc where "sc = step (CancelEv (task_id t)) s"
  define s2 where "s2 = steps evs' s1"
  have ok: "contexts_ok s" using assms(1) contexts_ok_init contexts_ok_steps by simp
  have w: "wrapped_for i t" using ok assms(2) by (simp add: contexts_ok_def t_def)
  have sc: "tasks sc = tasks s" "host (wld sc) = host (wld s)"
    "task_id t \<in> cancelledActions (wld sc)"
    unfolding sc_def step_Cancel_eq by simp_all
  have s1: "s1 = sc\<lparr>wld := snd (advance t b0 (wld sc)),
       tasks := (tasks sc)[i := fst (advance t b0 (wld sc))]\<rparr>"
    unfolding assms(5) sc_def [unfolded t_def, symmetric]
    using step_Resume_eq [of i sc b0] assms(2,4) sc(1) by (simp add: t_def del: step.simps)
  have i1: "i < length (tasks s1)" using assms(2) sc(1) by (simp add: s1)
  have nth1: "tasks s1 ! i = fst (advance t b0 (wld sc))"
    using assms(2) sc(1) by (simp add: s1)
  have tl1: "viaTakeLatest (tasks s1 ! i)"
    using assms(3) by (simp add: nth1 advance_static t_def)
  have i2: "i < length (tasks s2)" and tl2: "viaTakeLatest (tasks s2 ! i)"
    using steps_tasks_stable [OF i1, of evs'] tl1 by (simp_all add: s2_def)
  have a: "\<forall>en args b. b0 = Call en args b \<longrightarrow>
            status (tasks s' ! i) = Settled (Inr Undefined)
            \<and> host (wld s1) = host (wld s) \<and> host (wld s') = host (wld (steps evs' s1))"
  proof (intro allI impI)
    fix en args b assume b0: "b0 = Call en args b"
    have ex: "exec (ctx t) b0 (wld sc)
        = (Ending (Inl (ActionCancelledError Undefined)), wld sc)"
      using sc(3) by (simp add: b0 call_wrapped [OF w] task_id_def)
    have st1: "status (tasks s1 ! i) = Ending (Inl (ActionCancelledError Undefined))"
      using ex by (simp add: nth1 advance_status)
    have h1: "host (wld s1) = host (wld s)"
      using ex sc(2) by (simp add: s1 advance_world)
    have ex1: "takeLatest_exit (Inl (ActionCancelledError Undefined)) = Inr Undefined"
      by (simp add: takeLatest_exit_def ActionCancelledError_def)
    have st2: "status (tasks s2 ! i) = Ending (Inl (ActionCancelledError Undefined))
        \<or> status (tasks s2 ! i) = Settled (Inr Undefined)"
      unfolding s2_def using i1 st1 tl1 ex1
      by (intro steps_after_end) simp_all
    have "status (tasks s' ! i) = Settled (Inr Undefined) \<and> host (wld s') = host (wld s2)"
    proof (cases "status (tasks s2 ! i) = Settled (Inr Undefined)")
      case True
      then have "s' = s2" using i2 by (simp add: assms(6) s2_def)
      then show ?thesis using True by simp
    next
      case False
      then have e: "status (tasks s2 ! i) = Ending (Inl (ActionCancelledError Undefined))"
        using st2 by blast
      have "s' = s2\<lparr>wld := snd (finish (tasks s2 ! i) (Inl (ActionCancelledError Undefined))
             (wld s2)),
           tasks := (tasks s2)[i := fst (finish (tasks s2 ! i)
             (Inl (ActionCancelledError Undefined)) (wld s2))]\<rparr>"
        using step_Resume_end [OF i2 e] by (simp add: assms(6) s2_def del: step.simps)
      then show ?thesis using i2 tl2 ex1 by (simp add: finish_status finish_host)
    qed
    then show "status (tasks s' ! i) = Settled (Inr Undefined)
            \<and> host (wld s1) = host (wld s) \<and> host (wld s') = host (wld (steps evs' s1))"
      using h1 by (simp add: s2_def)
  qed
  have reach: "absorbed_inv s'"
    unfolding assms(6) assms(5) assms(1)
    by (intro absorbed_inv_step absorbed_inv_steps absorbed_inv_init)
  have "i < length (tasks s')" and "viaTakeLatest (tasks s' ! i)"
    using step_tasks_stable [OF i2, of "Resume i"] tl2 by (simp_all add: assms(6) s2_def)
  then have b: "\<forall>e. status (tasks s' ! i) = Settled (Inl e) \<longrightarrow>
      name e \<noteq> ''ActionCancelledError''"
    using reach by (simp add: absorbed_inv_def)
  show ?thesis using a b by blast
qed

theorem external_cancel_absorbed_witness:
  "one_pending = steps [Invoke True Undefined ''0.k2'' (action1 ''hello'' ''world'')] init
   \<and> 0 < length (tasks one_pending) \<and> viaTakeLatest (tasks one_pending ! 0)
   \<and> status (tasks one_pending ! 0)
       = Suspended (Call CommitE [Str ''setProp1'', Str ''helloworld'']
           (Call DispatchE [Str ''action2'', Str ''world''] (Return Undefined)))
   \<and> status (tasks (step (Resume 0) (steps [CancelEv (Str ''action-zz'')] (step (Resume 0)
         (step (CancelEv (task_id (tasks one_pending ! 0))) one_pending)))) ! 0)
       = Settled (Inr Undefined)
   \<and> host (wld (step (Resume 0) (steps [CancelEv (Str ''action-zz'')] (step (Resume 0)
         (step (CancelEv (task_id (tasks one_pending ! 0))) one_pending))))) = []"
proof -
  have h1: "one_pending = steps [Invoke True Undefined ''0.k2'' (action1 ''hello'' ''world'')] init"
    by (simp only: one_pending_def)
  have h2: "0 < length (tasks one_pending)" by (simp add: one_pending_def run_defs)
  have h3: "viaTakeLatest (tasks one_pending ! 0)" by (simp add: one_pending_def run_defs)
  have h4: "status (tasks one_pending ! 0)
       = Suspended (Call CommitE [Str ''setProp1'', Str ''helloworld'']
           (Call DispatchE [Str ''action2'', Str ''world''] (Return Undefined)))"
    by (simp add: one_pending_def run_defs)
  have h0: "host (wld (steps [CancelEv (Str ''action-zz'')] (step (Resume 0)
         (step (CancelEv (task_id (tasks one_pending ! 0))) one_pending)))) = []"
    by (simp add: one_pending_def run_defs)
  from external_cancel_absorbed [OF h1 h2 h3 h4 refl refl, of "[CancelEv (Str ''action-zz'')]"]
    h0 h1 h2 h3 h4
  show ?thesis by (simp del: step.simps steps.simps)
qed

end
